theory Spec2Isabelle
  imports Main "HOL-Library.Word"
begin

unbundle bit_operations_syntax

section \<open>Hardware data of the VM (main.cpp, lines 68-121)\<close>

type_synonym u16 = "16 word"
type_synonym byte = "8 word"
type_synonym mem = "u16 \<Rightarrow> u16"

text \<open>\<^verbatim>\<open>constexpr int MEMORY_MAX = 65536; uint16_t memory[MEMORY_MAX];\<close>
  The array has one cell for each 16-bit address, so it is a total function on \<open>u16\<close>.\<close>

definition MEMORY_MAX :: int where
  "MEMORY_MAX = 65536"

text \<open>The register enum; \<open>R_COUNT\<close> is the size of the array \<open>reg\<close> and names no register.\<close>

datatype regname = R_R0 | R_R1 | R_R2 | R_R3 | R_R4 | R_R5 | R_R6 | R_R7 | R_PC | R_COND

text \<open>The opcode enum, numbered from 0 in the order of the source.\<close>

definition OP_BR :: u16 where "OP_BR = 0"
definition OP_ADD :: u16 where "OP_ADD = 1"
definition OP_LD :: u16 where "OP_LD = 2"
definition OP_ST :: u16 where "OP_ST = 3"
definition OP_JSR :: u16 where "OP_JSR = 4"
definition OP_AND :: u16 where "OP_AND = 5"
definition OP_LDR :: u16 where "OP_LDR = 6"
definition OP_STR :: u16 where "OP_STR = 7"
definition OP_RTI :: u16 where "OP_RTI = 8"
definition OP_NOT :: u16 where "OP_NOT = 9"
definition OP_LDI :: u16 where "OP_LDI = 10"
definition OP_STI :: u16 where "OP_STI = 11"
definition OP_JMP :: u16 where "OP_JMP = 12"
definition OP_RES :: u16 where "OP_RES = 13"
definition OP_LEA :: u16 where "OP_LEA = 14"
definition OP_TRAP :: u16 where "OP_TRAP = 15"

text \<open>Condition flags: \<^verbatim>\<open>1 << 0\<close>, \<^verbatim>\<open>1 << 1\<close>, \<^verbatim>\<open>1 << 2\<close>.\<close>

definition FL_POS :: u16 where "FL_POS = push_bit 0 1"
definition FL_ZRO :: u16 where "FL_ZRO = push_bit 1 1"
definition FL_NEG :: u16 where "FL_NEG = push_bit 2 1"

text \<open>Memory mapped registers.\<close>

definition MR_KBSR :: u16 where "MR_KBSR = 0xFE00"
definition MR_KBDR :: u16 where "MR_KBDR = 0xFE02"

text \<open>
  The state that \<open>main\<close> and the functions it calls work on: the two global arrays, the
  local \<open>running\<close> of \<open>main\<close>, what \<open>printf\<close> has written so far, and how many times
  \<open>check_key\<close> has been called (the position in the keyboard's history).
\<close>

record vm =
  memory :: mem
  reg :: "regname \<Rightarrow> u16"
  running :: int
  printed :: "string list"
  polls :: nat

text \<open>
  The keyboard is outside the program. Its history is a function of the number of the
  poll: \<open>None\<close> when \<open>check_key()\<close> answers 0 at that poll, \<open>Some c\<close> when it answers
  nonzero and the \<open>getchar()\<close> that follows returns the \<open>int\<close> \<open>c\<close>.
\<close>

type_synonym keyboard = "nat \<Rightarrow> int option"

section \<open>Memory reading and writing (lines 155-171)\<close>

definition mem_write :: "u16 \<Rightarrow> u16 \<Rightarrow> vm \<Rightarrow> vm" where
  "mem_write address val s = s\<lparr>memory := (memory s)(address := val)\<rparr>"

text \<open>\<^verbatim>\<open>memory[MR_KBDR] = getchar();\<close> converts the \<open>int\<close> to \<open>uint16_t\<close>, that is
  modulo \<open>2 ^ 16\<close>: \<open>word_of_int\<close>.\<close>

definition mem_read :: "keyboard \<Rightarrow> u16 \<Rightarrow> vm \<Rightarrow> u16 \<times> vm" where
  "mem_read kbd address s =
     (let s' =
        (if address = MR_KBSR then
           (case kbd (polls s) of
              Some c \<Rightarrow>
                s\<lparr>memory := (memory s)(MR_KBSR := push_bit 15 1, MR_KBDR := word_of_int c),
                  polls := Suc (polls s)\<rparr>
            | None \<Rightarrow>
                s\<lparr>memory := (memory s)(MR_KBSR := 0), polls := Suc (polls s)\<rparr>)
         else s)
      in (memory s' address, s'))"

section \<open>The execution loop of main (lines 196-237)\<close>

text \<open>The \<open>switch (op)\<close>: every case is a bare \<open>break\<close>, the default included.\<close>

definition dispatch :: "u16 \<Rightarrow> vm \<Rightarrow> vm" where
  "dispatch op s =
     (if op = OP_ADD then s
      else if op = OP_AND then s
      else if op = OP_NOT then s
      else if op = OP_BR then s
      else if op = OP_JMP then s
      else if op = OP_JSR then s
      else if op = OP_LD then s
      else if op = OP_LDI then s
      else if op = OP_LDR then s
      else if op = OP_LEA then s
      else if op = OP_ST then s
      else if op = OP_STI then s
      else if op = OP_STR then s
      else if op = OP_TRAP then s
      else if op = OP_RES \<or> op = OP_RTI then s
      else s)"

text \<open>\<^verbatim>\<open>uint16_t instr = mem_read(reg[R_PC]++);\<close> The argument is the old program counter,
  and the increment is done before \<open>mem_read\<close> runs.\<close>

definition fetch :: "keyboard \<Rightarrow> vm \<Rightarrow> u16 \<times> vm" where
  "fetch kbd s =
     (let pc = reg s R_PC;
          s1 = s\<lparr>reg := (reg s)(R_PC := pc + 1)\<rparr>
      in mem_read kbd pc s1)"

definition loop_body :: "keyboard \<Rightarrow> vm \<Rightarrow> vm" where
  "loop_body kbd s =
     (let (instr, s2) = fetch kbd s;
          op = drop_bit 12 instr
      in dispatch op s2)"

text \<open>\<^verbatim>\<open>while (running) { ... }\<close> The loop may run forever, so it is a partial function
  into \<open>option\<close>: \<open>None\<close> is the run that never leaves the loop. What the process
  does when a signal arrives from outside (\<open>handle_interrupt\<close> calls \<open>exit(-2)\<close> on
  SIGINT) is no step of the loop and is left out.\<close>

partial_function (option) exec_loop :: "keyboard \<Rightarrow> vm \<Rightarrow> vm option" where
  "exec_loop kbd s = (if running s \<noteq> 0 then exec_loop kbd (loop_body kbd s) else Some s)"

text \<open>The state at the loop's test after at most \<open>n\<close> passes through the body.\<close>

fun iterations :: "nat \<Rightarrow> keyboard \<Rightarrow> vm \<Rightarrow> vm" where
  "iterations 0 kbd s = s"
| "iterations (Suc n) kbd s =
     (if running s \<noteq> 0 then iterations n kbd (loop_body kbd s) else s)"


section \<open>Reading LC-3 programs into memory (lines 125-151)\<close>

text \<open>\<^verbatim>\<open>return (x << 8) | (x >> 8);\<close> The operand is promoted to \<open>int\<close>, so the left shift
  loses nothing; the conversion of the result to \<open>uint16_t\<close> drops the bits from 16 up.\<close>

definition swap16 :: "u16 \<Rightarrow> u16" where
  "swap16 x = word_of_int (push_bit 8 (uint x) OR drop_bit 8 (uint x))"

text \<open>A file is the list of its bytes. The host is little-endian (the program is for
  Windows), so of the two bytes of an item that \<open>fread\<close> stores the first is the low one.\<close>

definition native16 :: "byte \<Rightarrow> byte \<Rightarrow> u16" where
  "native16 b0 b1 = ucast b0 OR push_bit 8 (ucast b1)"

text \<open>\<^verbatim>\<open>fread(p, sizeof(uint16_t), count, file)\<close>: the whole items read, at most \<open>count\<close> of
  them, and the byte of an item that the end of the stream cut in two, if there is one.\<close>

fun fread16 :: "nat \<Rightarrow> byte list \<Rightarrow> u16 list \<times> byte option" where
  "fread16 count [] = ([], None)"
| "fread16 count [b] = ([], if count = 0 then None else Some b)"
| "fread16 count (b0 # b1 # bs) =
     (if count = 0 then ([], None)
      else (let (items, cut) = fread16 (count - 1) bs in (native16 b0 b1 # items, cut)))"

text \<open>The items that \<open>fread\<close> stores go to consecutive cells from \<open>p\<close>.\<close>

fun store_items :: "u16 \<Rightarrow> u16 list \<Rightarrow> mem \<Rightarrow> mem" where
  "store_items p [] m = m"
| "store_items p (w # ws) m = store_items (p + 1) ws (m(p := w))"

text \<open>\<^verbatim>\<open>while (read-- > 0) { *p = swap16(*p); p++; }\<close>\<close>

fun swap_loop :: "nat \<Rightarrow> u16 \<Rightarrow> mem \<Rightarrow> mem" where
  "swap_loop 0 p m = m"
| "swap_loop (Suc n) p m = swap_loop n (p + 1) (m(p := swap16 (m p)))"

text \<open>
  \<open>read_image_file\<close>. \<^verbatim>\<open>uint16_t max_read = MEMORY_MAX - origin;\<close> is computed in \<open>int\<close> and
  then converted to \<open>uint16_t\<close>.

  C leaves the value of an item read in part indeterminate: \<open>part old b\<close> is the value
  that the C library leaves in a cell that held \<open>old\<close> when the stream ends after the
  byte \<open>b\<close> of its item. It is a parameter, and every statement below holds for each
  \<open>part\<close>. That cell is not among the \<open>read\<close> items, so the loop does not swap it.

  A stream too short for the origin leaves \<open>origin\<close> without a defined value, but then
  no byte is left for the second \<open>fread\<close>, which stores nothing whatever \<open>origin\<close> is.
\<close>

definition read_image_file :: "(u16 \<Rightarrow> byte \<Rightarrow> u16) \<Rightarrow> byte list \<Rightarrow> mem \<Rightarrow> mem" where
  "read_image_file part file m =
     (case file of
        b0 # b1 # rest \<Rightarrow>
          (let origin = swap16 (native16 b0 b1);
               max_read = (word_of_int (MEMORY_MAX - uint origin) :: u16);
               (items, cut) = fread16 (unat max_read) rest;
               m1 = store_items origin items m;
               q = origin + of_nat (length items);
               m2 = (case cut of None \<Rightarrow> m1 | Some b \<Rightarrow> m1(q := part (m1 q) b))
           in swap_loop (length items) origin m2)
      | _ \<Rightarrow> m)"

text \<open>The file system: \<open>None\<close> for a path that \<open>fopen\<close> cannot open.\<close>

type_synonym files = "string \<Rightarrow> byte list option"

text \<open>\<open>read_image\<close> returns 0 or 1, and the memory as it has left it.\<close>

definition read_image ::
  "(u16 \<Rightarrow> byte \<Rightarrow> u16) \<Rightarrow> files \<Rightarrow> string \<Rightarrow> mem \<Rightarrow> int \<times> mem" where
  "read_image part fs image_path m =
     (case fs image_path of
        None \<Rightarrow> (0, m)
      | Some file \<Rightarrow> (1, read_image_file part file m))"

section \<open>The start of main (lines 174-196)\<close>

datatype outcome =
    Exit int "string list"   \<comment> \<open>\<open>exit(status)\<close>, and what was printed before it\<close>
  | Enter vm                 \<comment> \<open>the state in which the execution loop is entered\<close>

datatype loaded = Failed string | Loaded mem

text \<open>\<^verbatim>\<open>for (int j = 1; j < argc; j++) if (!read_image(argv[j])) { printf(...); exit(1); }\<close>\<close>

fun load_images :: "(u16 \<Rightarrow> byte \<Rightarrow> u16) \<Rightarrow> files \<Rightarrow> string list \<Rightarrow> mem \<Rightarrow> loaded" where
  "load_images part fs [] m = Loaded m"
| "load_images part fs (p # ps) m =
     (let (ok, m') = read_image part fs p m
      in if ok = 0 then Failed p else load_images part fs ps m')"

text \<open>The global arrays start zeroed.\<close>

definition memory0 :: mem where
  "memory0 = (\<lambda>_. 0)"

definition reg0 :: "regname \<Rightarrow> u16" where
  "reg0 = (\<lambda>_. 0)"

definition PC_START :: u16 where
  "PC_START = 0x3000"

definition newline :: string where
  "newline = [CHR 0x0A]"

text \<open>Lines 192-196: the state in which the loop is entered, given the loaded memory.\<close>

definition start_state :: "mem \<Rightarrow> vm" where
  "start_state m =
     \<lparr>memory = m, reg = reg0(R_COND := FL_ZRO, R_PC := PC_START),
      running = 1, printed = [], polls = 0\<rparr>"

text \<open>\<open>main\<close> up to the loop. \<open>args\<close> is \<open>argv[1], ..., argv[argc - 1]\<close>, so
  \<open>argc = length args + 1\<close>.\<close>

definition main_setup :: "(u16 \<Rightarrow> byte \<Rightarrow> u16) \<Rightarrow> files \<Rightarrow> string list \<Rightarrow> outcome" where
  "main_setup part fs args =
     (if int (length args) + 1 < 2 then Exit 2 [''lc3 [image-file1] ...'' @ newline]
      else
        (case load_images part fs args memory0 of
           Failed p \<Rightarrow> Exit 1 [''failed to load image: '' @ p @ newline]
         | Loaded m \<Rightarrow> Enter (start_state m)))"

text \<open>The whole of \<open>main\<close>: \<open>None\<close> when the loop never ends, else how the process ends
  (\<open>return 0\<close> after the loop is \<open>Exit 0\<close>).\<close>

definition main_prog ::
  "(u16 \<Rightarrow> byte \<Rightarrow> u16) \<Rightarrow> files \<Rightarrow> keyboard \<Rightarrow> string list \<Rightarrow> outcome option" where
  "main_prog part fs kbd args =
     (case main_setup part fs args of
        Enter s \<Rightarrow>
          (case exec_loop kbd s of None \<Rightarrow> None | Some s' \<Rightarrow> Some (Exit 0 (printed s')))
      | Exit status text \<Rightarrow> Some (Exit status text))"


section \<open>What the specification says of instructions\<close>

text \<open>The trap vector is the low byte of the instruction.\<close>

definition trapvect :: "u16 \<Rightarrow> u16" where
  "trapvect instr = instr AND 0xFF"

definition is_halt :: "u16 \<Rightarrow> bool" where
  "is_halt instr = (drop_bit 12 instr = OP_TRAP \<and> trapvect instr = 0x25)"

definition unsupported :: "u16 \<Rightarrow> bool" where
  "unsupported instr =
     (drop_bit 12 instr = OP_RES \<or> drop_bit 12 instr = OP_RTI \<or>
      (drop_bit 12 instr = OP_TRAP \<and> (trapvect instr < 0x20 \<or> 0x25 < trapvect instr)))"


text \<open>The general purpose registers.\<close>

definition general :: "regname \<Rightarrow> bool" where
  "general r = (r \<noteq> R_PC \<and> r \<noteq> R_COND)"


text \<open>
  Modelled from the spec: the sign extension of the decoder, section 4.4, which main.cpp
  does not have (it decodes nothing but the opcode). Given a field of width \<open>n\<close>, if bit
  \<open>n - 1\<close> is 1, the value is extended by setting all higher bits to 1; else it is as
  it was.
\<close>

definition sign_extend :: "u16 \<Rightarrow> nat \<Rightarrow> u16" where
  "sign_extend x n = (if bit x (n - 1) then x OR push_bit n (- 1) else x)"

text \<open>The two's-complement reading of a field of width \<open>n\<close>, as an integer.\<close>

definition twos_complement :: "nat \<Rightarrow> u16 \<Rightarrow> int" where
  "twos_complement n x = (if uint x < 2 ^ (n - 1) then uint x else uint x - 2 ^ n)"

section \<open>Concrete images, files and states\<close>

text \<open>An image as the specification persists it: the origin and then the words, each as
  its two bytes, the high one first.\<close>

definition be_bytes :: "u16 \<Rightarrow> byte list" where
  "be_bytes w = [ucast (drop_bit 8 w), ucast w]"

definition image_bytes :: "u16 \<Rightarrow> u16 list \<Rightarrow> byte list" where
  "image_bytes origin ws = be_bytes origin @ concat (map be_bytes ws)"


text \<open>Origin 0x3000 and one word: TRAP 0x25; the reserved opcode; ADD R0, R0, #-1.\<close>

definition halt_image :: "byte list" where
  "halt_image = [0x30, 0x00, 0xF0, 0x25]"

definition res_image :: "byte list" where
  "res_image = [0x30, 0x00, 0xD0, 0x00]"

definition add_image :: "byte list" where
  "add_image = [0x30, 0x00, 0x10, 0x3F]"

text \<open>Origin 0 and one word.\<close>

definition low_image :: "byte list" where
  "low_image = [0x00, 0x00, 0x12, 0x34]"

definition demo_files :: files where
  "demo_files = [''halt.obj'' \<mapsto> halt_image, ''res.obj'' \<mapsto> res_image, ''add.obj'' \<mapsto> add_image]"

text \<open>Files that open and hold no image: no byte at all, and half an origin.\<close>

definition short_files :: files where
  "short_files = [''empty.obj'' \<mapsto> [], ''one.obj'' \<mapsto> [0x30]]"

definition no_keys :: keyboard where
  "no_keys = (\<lambda>_. None)"

definition key_a :: keyboard where
  "key_a = (\<lambda>_. Some 97)"

text \<open>A C library that stores the bytes as they come: the byte read is the low byte.\<close>

definition keep_high :: "u16 \<Rightarrow> byte \<Rightarrow> u16" where
  "keep_high old b = (old AND 0xFF00) OR ucast b"

definition halt_state :: vm where
  "halt_state = start_state (memory0(0x3000 := 0xF025))"

definition res_state :: vm where
  "res_state = start_state (memory0(0x3000 := 0xD000))"

definition add_state :: vm where
  "add_state = start_state (memory0(0x3000 := 0x103F))"

text \<open>The same with 5 in R0.\<close>

definition add_state5 :: vm where
  "add_state5 = add_state\<lparr>reg := (reg add_state)(R_R0 := 5)\<rparr>"

text \<open>A state about to fetch from the keyboard status register.\<close>

definition kbsr_state :: vm where
  "kbsr_state = (start_state memory0)\<lparr>reg := (reg (start_state memory0))(R_PC := MR_KBSR)\<rparr>"

section \<open>Facts about one pass through the loop\<close>

lemma dispatch_id: "dispatch op s = s"
  by (simp add: dispatch_def)

lemma loop_body_fetch: "loop_body kbd s = snd (fetch kbd s)"
  by (simp add: loop_body_def dispatch_id split: prod.split)

lemma mem_read_running: "running (snd (mem_read kbd a s)) = running s"
  by (simp add: mem_read_def Let_def split: option.split)

lemma mem_read_printed: "printed (snd (mem_read kbd a s)) = printed s"
  by (simp add: mem_read_def Let_def split: option.split)

lemma mem_read_reg: "reg (snd (mem_read kbd a s)) = reg s"
  by (simp add: mem_read_def Let_def split: option.split)

lemma mem_read_memory_other:
  "b \<noteq> MR_KBSR \<Longrightarrow> b \<noteq> MR_KBDR \<Longrightarrow> memory (snd (mem_read kbd a s)) b = memory s b"
  by (simp add: mem_read_def Let_def split: option.split)

lemma mem_read_plain: "a \<noteq> MR_KBSR \<Longrightarrow> mem_read kbd a s = (memory s a, s)"
  by (simp add: mem_read_def)

lemma loop_body_running: "running (loop_body kbd s) = running s"
  by (simp add: loop_body_fetch fetch_def Let_def mem_read_running)

lemma loop_body_printed: "printed (loop_body kbd s) = printed s"
  by (simp add: loop_body_fetch fetch_def Let_def mem_read_printed)

lemma loop_body_reg: "reg (loop_body kbd s) = (reg s)(R_PC := reg s R_PC + 1)"
  by (simp add: loop_body_fetch fetch_def Let_def mem_read_reg)

lemma loop_body_memory_other:
  "b \<noteq> MR_KBSR \<Longrightarrow> b \<noteq> MR_KBDR \<Longrightarrow> memory (loop_body kbd s) b = memory s b"
  by (simp add: loop_body_fetch fetch_def Let_def mem_read_memory_other)

lemma loop_body_plain:
  "reg s R_PC \<noteq> MR_KBSR \<Longrightarrow> loop_body kbd s = s\<lparr>reg := (reg s)(R_PC := reg s R_PC + 1)\<rparr>"
  by (simp add: loop_body_fetch fetch_def Let_def mem_read_plain)

lemma loop_body_twice_pc:
  "reg (loop_body kbd (loop_body kbd s)) R_PC = reg s R_PC + 2"
  by (simp add: loop_body_reg)

text \<open>The word fetched from the keyboard status register is \<open>1 << 15\<close> or 0, so its
  opcode is RTI or BR.\<close>

lemma fetch_at_kbsr:
  "reg s R_PC = MR_KBSR \<Longrightarrow> fst (fetch kbd s) = push_bit 15 1 \<or> fst (fetch kbd s) = 0"
proof -
  have "MR_KBSR \<noteq> MR_KBDR" by (simp add: MR_KBSR_def MR_KBDR_def)
  then show "reg s R_PC = MR_KBSR \<Longrightarrow> ?thesis"
    by (simp add: fetch_def mem_read_def Let_def split: option.split)
qed

lemma opcode_at_kbsr:
  assumes "reg s R_PC = MR_KBSR"
  shows "drop_bit 12 (fst (fetch kbd s)) = OP_RTI \<or> drop_bit 12 (fst (fetch kbd s)) = OP_BR"
proof -
  have "drop_bit 12 (push_bit 15 1 :: u16) = OP_RTI" by (simp add: OP_RTI_def drop_bit_eq_div)
  moreover have "drop_bit 12 (0 :: u16) = OP_BR" by (simp add: OP_BR_def)
  ultimately show ?thesis using fetch_at_kbsr [OF assms, of kbd] by auto
qed

lemma opcodes_apart:
  "OP_RTI \<noteq> OP_ADD" "OP_BR \<noteq> OP_ADD"
  "OP_RTI \<notin> set [OP_ADD, OP_AND, OP_NOT, OP_LD, OP_LDI, OP_LDR, OP_LEA]"
  "OP_BR \<notin> set [OP_ADD, OP_AND, OP_NOT, OP_LD, OP_LDI, OP_LDR, OP_LEA]"
  by (simp_all add: OP_BR_def OP_ADD_def OP_AND_def OP_NOT_def OP_LD_def OP_LDI_def
      OP_LDR_def OP_LEA_def OP_RTI_def)

lemma add_not_at_kbsr:
  "drop_bit 12 (fst (fetch kbd s)) = OP_ADD \<Longrightarrow> reg s R_PC \<noteq> MR_KBSR"
  using opcode_at_kbsr [of s kbd] opcodes_apart(1,2) by auto


section \<open>Facts about the loop\<close>

lemma exec_loop_Some_stopped:
  assumes e: "exec_loop kbd s = Some y"
  shows "running s = 0"
proof (rule exec_loop.raw_induct [where P = "\<lambda>k t z. running t = 0", OF _ e])
  fix f k t z
  assume ih: "\<And>k' t' z'. f k' t' = Some z' \<Longrightarrow> running t' = 0"
    and eq: "(if running t \<noteq> 0 then f k (loop_body k t) else Some t) = Some z"
  show "running t = 0"
  proof (rule ccontr)
    assume r: "running t \<noteq> 0"
    with eq have "f k (loop_body k t) = Some z" by simp
    then have "running (loop_body k t) = 0" by (rule ih)
    with r show False by (simp add: loop_body_running)
  qed
qed

lemma exec_loop_None: "running s \<noteq> 0 \<Longrightarrow> exec_loop kbd s = None"
  using exec_loop_Some_stopped [of kbd s] by (cases "exec_loop kbd s") auto

lemma iterations_running: "running (iterations n kbd s) = running s"
  by (induction n arbitrary: s) (simp_all add: loop_body_running)

lemma iterations_pc:
  "running s \<noteq> 0 \<Longrightarrow> reg (iterations n kbd s) R_PC = reg s R_PC + of_nat n"
  by (induction n arbitrary: s) (simp_all add: loop_body_running loop_body_reg)

lemma iterations_two:
  "running s \<noteq> 0 \<Longrightarrow> iterations 2 kbd s = loop_body kbd (loop_body kbd s)"
  by (simp add: numeral_2_eq_2 loop_body_running)

section \<open>Facts about the start of main\<close>

lemma main_setup_Enter:
  "main_setup part fs args = Enter s \<Longrightarrow> \<exists>m. s = start_state m"
  by (auto simp: main_setup_def split: if_splits loaded.splits)

lemma start_state_simps:
  "memory (start_state m) = m"
  "reg (start_state m) R_PC = PC_START"
  "reg (start_state m) R_COND = FL_ZRO"
  "general r \<Longrightarrow> reg (start_state m) r = 0"
  "running (start_state m) = 1"
  "printed (start_state m) = []"
  "polls (start_state m) = 0"
  by (simp_all add: start_state_def reg0_def general_def)


lemma flags_distinct: "FL_POS \<noteq> FL_ZRO" "FL_POS \<noteq> FL_NEG" "FL_ZRO \<noteq> FL_NEG"
  by (simp_all add: FL_POS_def FL_ZRO_def FL_NEG_def)

lemma load_images_failed:
  "\<exists>p\<in>set args. fs p = None \<Longrightarrow>
   \<exists>p\<in>set args. fs p = None \<and> load_images part fs args m = Failed p"
proof (induction args arbitrary: m)
  case Nil
  then show ?case by simp
next
  case (Cons a args)
  show ?case
  proof (cases "fs a")
    case None
    then show ?thesis by (simp add: read_image_def)
  next
    case (Some bytes)
    with Cons.prems have "\<exists>p\<in>set args. fs p = None" by auto
    then obtain p where "p \<in> set args" "fs p = None"
      "load_images part fs args (read_image_file part bytes m) = Failed p"
      using Cons.IH by blast
    with Some show ?thesis by (auto simp add: read_image_def)
  qed
qed

lemma load_images_loaded:
  "\<forall>p\<in>set args. fs p \<noteq> None \<Longrightarrow> \<exists>m'. load_images part fs args m = Loaded m'"
  by (induction args arbitrary: m) (auto simp add: read_image_def)

section \<open>Byte order\<close>

lemma swap16_word: "swap16 x = push_bit 8 x OR drop_bit 8 x"
  unfolding swap16_def
  by (rule bit_word_eqI) (auto simp add: bit_simps)

lemma swap16_native16: "swap16 (native16 b0 b1) = native16 b1 b0"
  unfolding swap16_word native16_def
  by (rule bit_word_eqI) (auto simp add: bit_simps dest: bit_imp_le_length)

lemma swap16_values:
  "swap16 0x0030 = 0x3000" "swap16 0x25F0 = 0xF025" "swap16 0x00D0 = 0xD000"
  "swap16 0x3F10 = 0x103F" "swap16 0x3412 = 0x1234" "swap16 0 = 0"
  by (simp_all add: swap16_word)

lemma native16_bytes: "native16 (ucast w) (ucast (drop_bit 8 w)) = w"
  unfolding native16_def
  by (rule bit_word_eqI) (auto simp add: bit_simps)

lemma swap16_be: "swap16 (native16 (ucast (drop_bit 8 w)) (ucast w)) = w"
  by (simp add: swap16_native16 native16_bytes)

section \<open>The concrete images and states\<close>

lemmas image_defs = read_image_file_def native16_def MEMORY_MAX_def swap16_values

lemma load_halt: "read_image_file part halt_image memory0 = memory0(0x3000 := 0xF025)"
  by (simp add: image_defs halt_image_def)

lemma load_res: "read_image_file part res_image memory0 = memory0(0x3000 := 0xD000)"
  by (simp add: image_defs res_image_def)

lemma load_add: "read_image_file part add_image memory0 = memory0(0x3000 := 0x103F)"
  by (simp add: image_defs add_image_def)

lemma setup_halt: "main_setup part demo_files [''halt.obj''] = Enter halt_state"
  by (simp add: main_setup_def read_image_def demo_files_def load_halt halt_state_def)

lemma setup_res: "main_setup part demo_files [''res.obj''] = Enter res_state"
  by (simp add: main_setup_def read_image_def demo_files_def load_res res_state_def)

lemma setup_add: "main_setup part demo_files [''add.obj''] = Enter add_state"
  by (simp add: main_setup_def read_image_def demo_files_def load_add add_state_def)

lemmas state_defs = start_state_def reg0_def memory0_def PC_START_def MR_KBSR_def MR_KBDR_def

lemma fetch_halt: "fst (fetch kbd halt_state) = 0xF025"
  by (simp add: fetch_def halt_state_def mem_read_def state_defs)

lemma fetch_res: "fst (fetch kbd res_state) = 0xD000"
  by (simp add: fetch_def res_state_def mem_read_def state_defs)

lemma fetch_add: "fst (fetch kbd add_state) = 0x103F"
  by (simp add: fetch_def add_state_def mem_read_def state_defs)

lemma fetch_add5: "fst (fetch kbd add_state5) = 0x103F"
  by (simp add: fetch_def add_state5_def add_state_def mem_read_def state_defs)

lemma running_states:
  "running halt_state = 1" "running res_state = 1" "running add_state = 1"
  "running add_state5 = 1"
  by (simp_all add: halt_state_def res_state_def add_state_def add_state5_def start_state_def)

lemma pc_states:
  "reg halt_state R_PC = 0x3000" "reg res_state R_PC = 0x3000" "reg add_state R_PC = 0x3000"
  "reg add_state5 R_PC = 0x3000"
  by (simp_all add: halt_state_def res_state_def add_state_def add_state5_def state_defs)

lemma is_halt_F025: "is_halt 0xF025"
  by (simp add: is_halt_def trapvect_def OP_TRAP_def drop_bit_eq_div)

lemma unsupported_D000: "unsupported 0xD000"
  by (simp add: unsupported_def OP_RES_def drop_bit_eq_div)


section \<open>Facts about the sign extension of the specification\<close>

lemma sign_extend_signed_take_bit:
  "0 < n \<Longrightarrow> take_bit n x = x \<Longrightarrow> sign_extend x n = signed_take_bit (n - 1) x"
proof (rule bit_word_eqI)
  fix k
  assume n: "0 < n" and x: "take_bit n x = x" and k: "k < LENGTH(16)"
  have hi: "\<not> bit x j" if "n \<le> j" for j
  proof -
    have "bit x j = bit (take_bit n x) j" by (simp add: x)
    with that show ?thesis by (simp add: bit_take_bit_iff)
  qed
  consider "k < n - 1" | "k = n - 1" | "n \<le> k" using n by linarith
  then show "bit (sign_extend x n) k = bit (signed_take_bit (n - 1) x) k"
  proof cases
    case 1
    then have "k < n" by linarith
    with 1 k show ?thesis
      by (simp add: sign_extend_def bit_simps bit_signed_take_bit_iff min_def)
  next
    case 2
    with k n show ?thesis
      by (simp add: sign_extend_def bit_simps bit_signed_take_bit_iff min_def)
  next
    case 3
    then have "n - 1 \<le> k" "\<not> k < n" by linarith+
    with 3 k n hi [of k] show ?thesis
      by (simp add: sign_extend_def bit_simps bit_signed_take_bit_iff min_def)
  qed
qed

lemma sign_extend_5_numerals:
  "sign_extend 0x1F 5 = 0xFFFF" "sign_extend 0x15 5 = 0xFFF5" "sign_extend 0x0A 5 = 0x0A"
proof -
  have p: "push_bit 5 (- 1 :: u16) = 0xFFE0" by (simp add: push_bit_eq_mult)
  show "sign_extend 0x1F 5 = 0xFFFF" "sign_extend 0x15 5 = 0xFFF5" "sign_extend 0x0A 5 = 0x0A"
    unfolding sign_extend_def p by (simp_all add: bit_iff_odd)
qed

lemma sint_signed_take_bit_u16:
  fixes x :: u16
  assumes "m < 16"
  shows "sint (signed_take_bit m x) = signed_take_bit m (uint x)"
proof (rule bit_eqI)
  fix k
  show "bit (sint (signed_take_bit m x)) k = bit (signed_take_bit m (uint x)) k"
    using assms
    by (auto simp add: bit_sint_iff bit_signed_take_bit_iff bit_uint_iff min_def not_le)
qed

lemma signed_take_bit_field:
  fixes k :: int
  assumes "0 < n" and "0 \<le> k" and "k < 2 ^ n"
  shows "signed_take_bit (n - 1) k = (if k < 2 ^ (n - 1) then k else k - 2 ^ n)"
proof -
  from assms(1) obtain m where n: "n = Suc m" by (cases n) auto
  have e: "(2::int) ^ n = 2 * 2 ^ m" by (simp add: n)
  show ?thesis
  proof (cases "k < 2 ^ m")
    case True
    with assms(2) have "take_bit (Suc m) (k + 2 ^ m) = k + 2 ^ m"
      by (simp add: take_bit_int_eq_self)
    with True show ?thesis by (simp add: n signed_take_bit_eq_take_bit_shift)
  next
    case False
    define j where "j = k + 2 ^ m - 2 ^ n"
    from False assms(3) have j: "0 \<le> j" "j < 2 ^ Suc m" by (simp_all add: j_def e)
    have "k + 2 ^ m = j + 2 ^ Suc m * 1" by (simp add: j_def n)
    then have "take_bit (Suc m) (k + 2 ^ m) = take_bit (Suc m) j"
      by (simp only: take_bit_eq_mod mod_mult_self2)
    also from j have "\<dots> = j" by (simp add: take_bit_int_eq_self)
    finally show ?thesis using False by (simp add: n signed_take_bit_eq_take_bit_shift j_def)
  qed
qed

lemma field_uint:
  fixes x :: u16
  assumes "take_bit n x = x"
  shows "uint x < 2 ^ n"
proof -
  have "uint x = uint (take_bit n x)" by (simp add: assms)
  also have "\<dots> = take_bit n (uint x)" by (simp add: unsigned_take_bit_eq)
  also have "\<dots> < 2 ^ n" by (rule take_bit_int_less_exp)
  finally show ?thesis .
qed

section \<open>The HALT trap\<close>

text \<open>
  Claim C1 says that executing a TRAP with vector 0x25 sets \<open>running\<close> to false and that
  no instruction is fetched after it. It fails on the program that \<open>main\<close> loads from an
  image holding that one instruction: after the pass that fetches it \<open>running\<close> is still
  nonzero, the loop goes through its body a second time and the program counter, which
  only a fetch increments, is at 0x3002.
\<close>
theorem halt_trap_counterexample:
  "main_setup keep_high demo_files [''halt.obj''] = Enter halt_state \<and>
   is_halt (fst (fetch no_keys halt_state)) \<and>
   running (loop_body no_keys halt_state) \<noteq> 0 \<and>
   iterations 2 no_keys halt_state = loop_body no_keys (loop_body no_keys halt_state) \<and>
   reg (iterations 2 no_keys halt_state) R_PC = 0x3002"
  by (simp add: setup_halt fetch_halt is_halt_F025 loop_body_running running_states
      iterations_two loop_body_twice_pc pc_states)

text \<open>
  Claim C1 as the program has it. For every state in which the loop is running and the
  instruction fetched is a TRAP with vector 0x25, the pass leaves \<open>running\<close> as it was
  and prints nothing; the loop goes through its body again, fetching at the incremented
  program counter, and never ends.
\<close>
theorem halt_trap_leaves_loop_running:
  assumes "is_halt (fst (fetch kbd s))" and "running s \<noteq> 0"
  shows "running (loop_body kbd s) = running s \<and>
    printed (loop_body kbd s) = printed s \<and>
    iterations 2 kbd s = loop_body kbd (loop_body kbd s) \<and>
    reg (iterations 2 kbd s) R_PC = reg s R_PC + 2 \<and>
    exec_loop kbd s = None"
  using assms(2)
  by (simp add: loop_body_running loop_body_printed iterations_two loop_body_twice_pc
      exec_loop_None)

theorem halt_trap_leaves_loop_running_witness:
  "is_halt (fst (fetch key_a halt_state)) \<and> running halt_state \<noteq> 0 \<and>
   running (loop_body key_a halt_state) = 1 \<and>
   printed (loop_body key_a halt_state) = [] \<and>
   reg (iterations 2 key_a halt_state) R_PC = 0x3002 \<and>
   exec_loop key_a halt_state = None"
proof -
  have h: "is_halt (fst (fetch key_a halt_state))" by (simp add: fetch_halt is_halt_F025)
  have r: "running halt_state \<noteq> 0" by (simp add: running_states)
  have p: "printed halt_state = []" by (simp add: halt_state_def start_state_def)
  show ?thesis
    using halt_trap_leaves_loop_running [OF h r] h r p
    by (simp add: running_states pc_states loop_body_twice_pc)
qed

section \<open>Unsupported instructions\<close>

text \<open>
  Claim C2 says that a word with opcode RES or RTI, or a TRAP with a vector outside
  0x20..0x25, halts the execution with a reported error. It fails on the program loaded
  from an image holding the word 0xD000 (RES): the pass prints nothing, \<open>running\<close> stays
  nonzero and the loop fetches again.
\<close>
theorem unsupported_counterexample:
  "main_setup keep_high demo_files [''res.obj''] = Enter res_state \<and>
   drop_bit 12 (fst (fetch no_keys res_state)) = OP_RES \<and>
   unsupported (fst (fetch no_keys res_state)) \<and>
   running (loop_body no_keys res_state) \<noteq> 0 \<and>
   printed (loop_body no_keys res_state) = [] \<and>
   iterations 2 no_keys res_state = loop_body no_keys (loop_body no_keys res_state) \<and>
   reg (iterations 2 no_keys res_state) R_PC = 0x3002"
proof -
  have p: "printed res_state = []" by (simp add: res_state_def start_state_def)
  show ?thesis
    by (simp add: setup_res fetch_res unsupported_D000 loop_body_running running_states
        loop_body_printed p OP_RES_def iterations_two loop_body_twice_pc pc_states)
qed

text \<open>
  Claim C2 as the program has it. For every state in which the loop is running and the
  word fetched has opcode RES or RTI, or is a TRAP with a vector outside 0x20..0x25, the
  pass reports nothing and does not halt: \<open>running\<close> and the output stay as they were,
  the loop goes through its body again, fetching at the incremented program counter, and
  never ends.
\<close>
theorem unsupported_is_passed_over:
  assumes "unsupported (fst (fetch kbd s))" and "running s \<noteq> 0"
  shows "running (loop_body kbd s) = running s \<and>
    printed (loop_body kbd s) = printed s \<and>
    iterations 2 kbd s = loop_body kbd (loop_body kbd s) \<and>
    reg (iterations 2 kbd s) R_PC = reg s R_PC + 2 \<and>
    exec_loop kbd s = None"
  using assms(2)
  by (simp add: loop_body_running loop_body_printed iterations_two loop_body_twice_pc
      exec_loop_None)

theorem unsupported_is_passed_over_witness:
  "unsupported (fst (fetch key_a res_state)) \<and> running res_state \<noteq> 0 \<and>
   running (loop_body key_a res_state) = 1 \<and>
   printed (loop_body key_a res_state) = [] \<and>
   reg (iterations 2 key_a res_state) R_PC = 0x3002 \<and>
   exec_loop key_a res_state = None"
proof -
  have h: "unsupported (fst (fetch key_a res_state))"
    by (simp add: fetch_res unsupported_D000)
  have r: "running res_state \<noteq> 0" by (simp add: running_states)
  have p: "printed res_state = []" by (simp add: res_state_def start_state_def)
  show ?thesis
    using unsupported_is_passed_over [OF h r] h r p
    by (simp add: running_states pc_states loop_body_twice_pc)
qed

section \<open>ADD\<close>

text \<open>
  Claim C3 says that ADD stores the wrapped sum in the destination register and sets the
  flags from it. It fails on the word 0x103F (ADD R0, R0, #-1): with 5 in R0 the sum is 4
  and the flag would be POS, but after the pass R0 still holds 5 and the flags are ZRO;
  and in the state that \<open>main\<close> enters the loop in, R0 stays 0 where the sum is 0xFFFF.
\<close>
theorem add_counterexample:
  "drop_bit 12 (fst (fetch no_keys add_state5)) = OP_ADD \<and>
   fst (fetch no_keys add_state5) = 0x103F \<and>
   reg add_state5 R_R0 = 5 \<and>
   reg add_state5 R_R0 + sign_extend 0x1F 5 = 4 \<and>
   reg (loop_body no_keys add_state5) R_R0 = 5 \<and>
   reg (loop_body no_keys add_state5) R_COND = FL_ZRO \<and>
   FL_ZRO \<noteq> FL_POS \<and>
   main_setup keep_high demo_files [''add.obj''] = Enter add_state \<and>
   fst (fetch no_keys add_state) = 0x103F \<and>
   reg add_state R_R0 + sign_extend 0x1F 5 = 0xFFFF \<and>
   reg (loop_body no_keys add_state) R_R0 = 0"
proof -
  have r: "reg add_state5 R_R0 = 5" "reg add_state R_R0 = 0" "reg add_state5 R_COND = FL_ZRO"
    by (simp_all add: add_state5_def add_state_def start_state_def reg0_def)
  have s: "sign_extend 0x1F 5 = 0xFFFF"
    by (simp add: sign_extend_5_numerals)
  show ?thesis
    using flags_distinct
    by (simp add: fetch_add5 fetch_add OP_ADD_def r s loop_body_reg setup_add)
qed

text \<open>
  Claim C3 as the program has it. For every state, a pass that fetches an ADD instruction
  only advances the program counter by 1: the state after it is the state before it with
  the program counter incremented, so the destination register, every other general
  purpose register, the condition flags, the memory, \<open>running\<close> and the output are as
  they were (an ADD is never fetched from the keyboard status register).
\<close>
theorem add_only_advances_pc:
  assumes "drop_bit 12 (fst (fetch kbd s)) = OP_ADD"
  shows "loop_body kbd s = s\<lparr>reg := (reg s)(R_PC := reg s R_PC + 1)\<rparr> \<and>
    (\<forall>r. r \<noteq> R_PC \<longrightarrow> reg (loop_body kbd s) r = reg s r) \<and>
    reg (loop_body kbd s) R_PC = reg s R_PC + 1 \<and>
    memory (loop_body kbd s) = memory s \<and>
    running (loop_body kbd s) = running s \<and>
    printed (loop_body kbd s) = printed s \<and>
    polls (loop_body kbd s) = polls s"
proof -
  from assms have "reg s R_PC \<noteq> MR_KBSR" by (rule add_not_at_kbsr)
  then have "loop_body kbd s = s\<lparr>reg := (reg s)(R_PC := reg s R_PC + 1)\<rparr>"
    by (rule loop_body_plain)
  then show ?thesis by simp
qed

theorem add_only_advances_pc_witness:
  "drop_bit 12 (fst (fetch key_a add_state5)) = OP_ADD \<and>
   loop_body key_a add_state5 = add_state5\<lparr>reg := (reg add_state5)(R_PC := 0x3001)\<rparr> \<and>
   reg (loop_body key_a add_state5) R_R0 = 5 \<and>
   reg (loop_body key_a add_state5) R_COND = FL_ZRO \<and>
   reg (loop_body key_a add_state5) R_PC = 0x3001 \<and>
   memory (loop_body key_a add_state5) = memory add_state5"
proof -
  have h: "drop_bit 12 (fst (fetch key_a add_state5)) = OP_ADD"
    by (simp add: fetch_add5 OP_ADD_def)
  have r: "reg add_state5 R_R0 = 5" "reg add_state5 R_COND = FL_ZRO"
    by (simp_all add: add_state5_def add_state_def start_state_def reg0_def)
  show ?thesis
    using add_only_advances_pc [OF h] h r by (simp add: pc_states)
qed

section \<open>The condition flags\<close>




section \<open>Sign extension\<close>

text \<open>
  Claim C5. For a field of width \<open>n\<close> in 5, 6, 9, 11, held in the low \<open>n\<close> bits of a
  word, the sign extension of the specification is the two's-complement reading of the
  field: if bit \<open>n - 1\<close> is 1 all higher bits of the result are 1 and the lower ones are
  those of the field, otherwise the value is unchanged; the field 0b10101 of width 5
  extends to 0xFFF5.
\<close>
theorem sign_extend_twos_complement:
  assumes "n \<in> set [5, 6, 9, 11]" and "take_bit n x = x"
  shows "sint (sign_extend x n) = twos_complement n x \<and>
    (bit x (n - 1) \<longrightarrow> (\<forall>k<16. bit (sign_extend x n) k = (n \<le> k \<or> bit x k))) \<and>
    (\<not> bit x (n - 1) \<longrightarrow> sign_extend x n = x) \<and>
    sign_extend 0x15 5 = 0xFFF5"
proof -
  from assms(1) have n: "0 < n" "n - 1 < 16" by auto
  have "sign_extend x n = signed_take_bit (n - 1) x"
    using n(1) assms(2) by (rule sign_extend_signed_take_bit)
  then have "sint (sign_extend x n) = signed_take_bit (n - 1) (uint x)"
    using n(2) by (simp add: sint_signed_take_bit_u16)
  also have "\<dots> = twos_complement n x"
    unfolding twos_complement_def
    using n(1) field_uint [OF assms(2)] by (intro signed_take_bit_field) simp_all
  finally have a: "sint (sign_extend x n) = twos_complement n x" .
  have b: "bit (sign_extend x n) k = (n \<le> k \<or> bit x k)" if "bit x (n - 1)" "k < 16" for k
    using that by (auto simp add: sign_extend_def bit_simps)
  have c: "\<not> bit x (n - 1) \<Longrightarrow> sign_extend x n = x" by (simp add: sign_extend_def)
  from a b c show ?thesis by (simp add: sign_extend_5_numerals)
qed

theorem sign_extend_twos_complement_witness:
  "(5::nat) \<in> set [5, 6, 9, 11] \<and> take_bit 5 (0x15 :: u16) = 0x15 \<and>
   sint (sign_extend 0x15 5) = - 11 \<and> twos_complement 5 0x15 = - 11 \<and>
   bit (0x15 :: u16) 4 \<and> bit (sign_extend 0x15 5) 15 \<and>
   sign_extend 0x15 5 = 0xFFF5"
proof -
  have n: "(5::nat) \<in> set [5, 6, 9, 11]" by simp
  have f: "take_bit 5 (0x15 :: u16) = 0x15" by (simp add: take_bit_eq_mod)
  have t: "twos_complement 5 0x15 = - 11" by (simp add: twos_complement_def)
  have b: "bit (0x15 :: u16) 4" by (simp add: bit_iff_odd)
  from sign_extend_twos_complement [OF n f] b
  have "bit (sign_extend 0x15 5) 15" by simp
  with sign_extend_twos_complement [OF n f] n f t b show ?thesis by simp
qed

section \<open>The memory subsystem\<close>

text \<open>
  Claim C6. For every memory state and input source: \<open>mem_read\<close> at the keyboard status
  address 0xFE00 first polls the input; if a character is available it stores \<open>1 << 15\<close>
  at 0xFE00 and the character's numeric code at 0xFE02 before returning the status cell,
  otherwise it stores 0 at 0xFE00. For every address other than 0xFE00, \<open>mem_read\<close>
  returns the stored cell and changes nothing, and \<open>mem_write\<close> stores its value as it is
  (at every address) and changes no other cell.
\<close>
theorem mem_read_mem_write_behaviour:
  "(kbd (polls s) = Some c \<longrightarrow>
      fst (mem_read kbd MR_KBSR s) = push_bit 15 1 \<and>
      memory (snd (mem_read kbd MR_KBSR s)) MR_KBSR = push_bit 15 1 \<and>
      memory (snd (mem_read kbd MR_KBSR s)) MR_KBDR = word_of_int c \<and>
      (0 \<le> c \<and> c < 65536 \<longrightarrow>
         uint (memory (snd (mem_read kbd MR_KBSR s)) MR_KBDR) = c)) \<and>
   (kbd (polls s) = None \<longrightarrow>
      fst (mem_read kbd MR_KBSR s) = 0 \<and>
      memory (snd (mem_read kbd MR_KBSR s)) MR_KBSR = 0 \<and>
      memory (snd (mem_read kbd MR_KBSR s)) MR_KBDR = memory s MR_KBDR) \<and>
   (\<forall>b. b \<noteq> MR_KBSR \<and> b \<noteq> MR_KBDR \<longrightarrow>
      memory (snd (mem_read kbd MR_KBSR s)) b = memory s b) \<and>
   reg (snd (mem_read kbd MR_KBSR s)) = reg s \<and>
   (a \<noteq> MR_KBSR \<longrightarrow> mem_read kbd a s = (memory s a, s)) \<and>
   memory (mem_write a v s) a = v \<and>
   (\<forall>b. b \<noteq> a \<longrightarrow> memory (mem_write a v s) b = memory s b) \<and>
   reg (mem_write a v s) = reg s"
proof -
  have kb: "MR_KBDR \<noteq> MR_KBSR" by (simp add: MR_KBSR_def MR_KBDR_def)
  have some: "kbd (polls s) = Some c \<Longrightarrow>
      fst (mem_read kbd MR_KBSR s) = push_bit 15 1 \<and>
      memory (snd (mem_read kbd MR_KBSR s)) MR_KBSR = push_bit 15 1 \<and>
      memory (snd (mem_read kbd MR_KBSR s)) MR_KBDR = word_of_int c"
    using kb by (simp add: mem_read_def)
  have code: "0 \<le> c \<Longrightarrow> c < 65536 \<Longrightarrow> uint (word_of_int c :: u16) = c"
    by (simp add: uint_word_of_int take_bit_int_eq_self)
  have none: "kbd (polls s) = None \<Longrightarrow>
      fst (mem_read kbd MR_KBSR s) = 0 \<and>
      memory (snd (mem_read kbd MR_KBSR s)) MR_KBSR = 0 \<and>
      memory (snd (mem_read kbd MR_KBSR s)) MR_KBDR = memory s MR_KBDR"
    using kb by (simp add: mem_read_def)
  have wr: "memory (mem_write a v s) a = v"
    "\<forall>b. b \<noteq> a \<longrightarrow> memory (mem_write a v s) b = memory s b"
    "reg (mem_write a v s) = reg s"
    by (simp_all add: mem_write_def)
  show ?thesis
    using some code none wr
    by (simp add: mem_read_memory_other mem_read_reg mem_read_plain)
qed

theorem mem_read_mem_write_behaviour_witness:
  "fst (mem_read key_a MR_KBSR kbsr_state) = 0x8000 \<and>
   memory (snd (mem_read key_a MR_KBSR kbsr_state)) MR_KBDR = 97 \<and>
   uint (memory (snd (mem_read key_a MR_KBSR kbsr_state)) MR_KBDR) = 97 \<and>
   fst (mem_read no_keys MR_KBSR kbsr_state) = 0 \<and>
   memory (snd (mem_read no_keys MR_KBSR kbsr_state)) 0x3000 = memory kbsr_state 0x3000 \<and>
   mem_read key_a 0x3000 halt_state = (0xF025, halt_state) \<and>
   memory (mem_write MR_KBSR 7 halt_state) MR_KBSR = 7 \<and>
   memory (mem_write MR_KBSR 7 halt_state) 0x3000 = 0xF025"
proof -
  have a: "key_a (polls kbsr_state) = Some 97" by (simp add: key_a_def)
  have n: "no_keys (polls kbsr_state) = None" by (simp add: no_keys_def)
  have d: "(0x3000 :: u16) \<noteq> MR_KBSR" "(0x3000 :: u16) \<noteq> MR_KBDR"
    by (simp_all add: MR_KBSR_def MR_KBDR_def)
  have m: "memory halt_state 0x3000 = 0xF025" by (simp add: halt_state_def start_state_def)
  show ?thesis
    using
      mem_read_mem_write_behaviour [where kbd = key_a and s = kbsr_state and c = 97
        and a = "0x3000" and v = 7] a
      mem_read_mem_write_behaviour [where kbd = no_keys and s = kbsr_state and c = 0
        and a = "0x3000" and v = 7] n
      mem_read_mem_write_behaviour [where kbd = key_a and s = halt_state and c = 0
        and a = MR_KBSR and v = 7]
      mem_read_mem_write_behaviour [where kbd = key_a and s = halt_state and c = 0
        and a = "0x3000" and v = 7] d m
    by simp
qed

section \<open>Loading an image\<close>

lemma fread16_zero: "fread16 0 bs = ([], None)"
  by (induction "0::nat" bs rule: fread16.induct) simp_all

lemma fread16_words:
  "length ws \<le> count \<Longrightarrow>
   fread16 count (concat (map be_bytes ws)) =
     (map (\<lambda>w. native16 (ucast (drop_bit 8 w)) (ucast w)) ws, None)"
proof (induction ws arbitrary: count)
  case Nil
  then show ?case by simp
next
  case (Cons w ws)
  then have "count \<noteq> 0" "length ws \<le> count - 1" by simp_all
  with Cons.IH [of "count - 1"] show ?case by (simp add: be_bytes_def)
qed

lemma of_nat_u16_nonzero:
  assumes "0 < k" and "k < 65536"
  shows "(of_nat k :: u16) \<noteq> 0"
proof
  assume "(of_nat k :: u16) = 0"
  then have "2 ^ LENGTH(16) dvd k" by (simp only: word_of_nat_eq_0_iff)
  with assms(1) have "2 ^ LENGTH(16) \<le> k" by (rule dvd_imp_le [rotated])
  with assms(2) show False by simp
qed

lemma store_items_outside:
  "\<forall>i<length ws. a \<noteq> p + of_nat i \<Longrightarrow> store_items p ws m a = m a"
proof (induction ws arbitrary: p m)
  case Nil
  then show ?case by simp
next
  case (Cons w ws)
  have "a \<noteq> p" using Cons.prems [rule_format, of 0] by simp
  moreover have "\<forall>i<length ws. a \<noteq> p + 1 + of_nat i"
  proof (intro allI impI)
    fix i assume "i < length ws"
    then show "a \<noteq> p + 1 + of_nat i"
      using Cons.prems [rule_format, of "Suc i"] by (simp add: add.assoc)
  qed
  ultimately show ?case using Cons.IH [of "p + 1"] by simp
qed

lemma store_items_nth:
  "length ws \<le> 65536 \<Longrightarrow> i < length ws \<Longrightarrow> store_items p ws m (p + of_nat i) = ws ! i"
proof (induction ws arbitrary: p m i)
  case Nil
  then show ?case by simp
next
  case (Cons w ws)
  show ?case
  proof (cases i)
    case 0
    have "\<forall>j<length ws. p \<noteq> p + 1 + of_nat j"
    proof (intro allI impI)
      fix j assume "j < length ws"
      with Cons.prems(1) have "(of_nat (Suc j) :: u16) \<noteq> 0"
        by (intro of_nat_u16_nonzero) simp_all
      then show "p \<noteq> p + 1 + of_nat j" by (simp add: add.assoc)
    qed
    then have "store_items (p + 1) ws (m(p := w)) p = (m(p := w)) p"
      by (rule store_items_outside)
    with 0 show ?thesis by simp
  next
    case (Suc j)
    with Cons.prems have "length ws \<le> 65536" "j < length ws" by simp_all
    from Cons.IH [OF this, of "p + 1"] Suc show ?thesis by (simp add: add.assoc)
  qed
qed

lemma swap_loop_outside:
  "\<forall>i<n. a \<noteq> p + of_nat i \<Longrightarrow> swap_loop n p m a = m a"
proof (induction n arbitrary: p m)
  case 0
  then show ?case by simp
next
  case (Suc n)
  have "a \<noteq> p" using Suc.prems [rule_format, of 0] by simp
  moreover have "\<forall>i<n. a \<noteq> p + 1 + of_nat i"
  proof (intro allI impI)
    fix i assume "i < n"
    then show "a \<noteq> p + 1 + of_nat i"
      using Suc.prems [rule_format, of "Suc i"] by (simp add: add.assoc)
  qed
  ultimately show ?case using Suc.IH [of "p + 1"] by simp
qed

lemma swap_loop_nth:
  "n \<le> 65536 \<Longrightarrow> i < n \<Longrightarrow> swap_loop n p m (p + of_nat i) = swap16 (m (p + of_nat i))"
proof (induction n arbitrary: p m i)
  case 0
  then show ?case by simp
next
  case (Suc n)
  have far: "p \<noteq> p + 1 + of_nat j" if "j < n" for j
  proof -
    from that Suc.prems(1) have "(of_nat (Suc j) :: u16) \<noteq> 0"
      by (intro of_nat_u16_nonzero) simp_all
    then show ?thesis by (simp add: add.assoc)
  qed
  show ?case
  proof (cases i)
    case 0
    have "swap_loop n (p + 1) (m(p := swap16 (m p))) p = (m(p := swap16 (m p))) p"
      using far by (intro swap_loop_outside) simp
    with 0 show ?thesis by simp
  next
    case (Suc j)
    with Suc.prems have j: "n \<le> 65536" "j < n" by simp_all
    let ?m = "m(p := swap16 (m p))"
    have e: "p + of_nat i = p + 1 + of_nat j" by (simp add: Suc add.assoc)
    from far [OF j(2)] have "?m (p + 1 + of_nat j) = m (p + 1 + of_nat j)" by simp
    moreover have "swap_loop n (p + 1) ?m (p + 1 + of_nat j) = swap16 (?m (p + 1 + of_nat j))"
      using j by (rule Suc.IH)
    ultimately show ?thesis by (simp only: e swap_loop.simps)
  qed
qed

lemma len16: "LENGTH(16) = 16"
  by simp

lemma unat_max_read:
  fixes origin :: u16
  assumes "origin \<noteq> 0"
  shows "unat (word_of_int (MEMORY_MAX - uint origin) :: u16) = 65536 - unat origin"
proof -
  from assms have "uint origin \<noteq> 0" by (simp add: uint_0_iff)
  then have "0 < uint origin" using uint_ge_0 [of origin] by linarith
  moreover have "uint origin < 65536" using uint_bounded [of origin] by simp
  ultimately have "take_bit 16 (65536 - uint origin) = 65536 - uint origin"
    by (simp add: take_bit_int_eq_self)
  then have "uint (word_of_int (MEMORY_MAX - uint origin) :: u16) = 65536 - uint origin"
    unfolding MEMORY_MAX_def by (simp only: uint_word_of_int_eq len16)
  then have "unat (word_of_int (MEMORY_MAX - uint origin) :: u16) = nat (65536 - uint origin)"
    by (simp only: unat_eq_nat_uint)
  also have "\<dots> = 65536 - nat (uint origin)"
    using \<open>0 < uint origin\<close> \<open>uint origin < 65536\<close> by linarith
  finally show ?thesis by (simp only: unat_eq_nat_uint)
qed

lemma read_image_file_words:
  assumes "origin \<noteq> 0" and "unat origin + length ws \<le> 65536"
  shows "read_image_file part (image_bytes origin ws) m =
    swap_loop (length ws) origin
      (store_items origin (map (\<lambda>w. native16 (ucast (drop_bit 8 w)) (ucast w)) ws) m)"
proof -
  define count where "count = unat (word_of_int (MEMORY_MAX - uint origin) :: u16)"
  have "count = 65536 - unat origin"
    unfolding count_def using assms(1) by (rule unat_max_read)
  with assms(2) have "length ws \<le> count" by linarith
  then have f: "fread16 count (concat (map be_bytes ws)) =
      (map (\<lambda>w. native16 (ucast (drop_bit 8 w)) (ucast w)) ws, None)"
    by (rule fread16_words)
  have "read_image_file part (image_bytes origin ws) m =
      (let (items, cut) = fread16 count (concat (map be_bytes ws));
           m1 = store_items origin items m;
           q = origin + of_nat (length items);
           m2 = (case cut of None \<Rightarrow> m1 | Some b \<Rightarrow> m1(q := part (m1 q) b))
       in swap_loop (length items) origin m2)"
    unfolding read_image_file_def image_bytes_def be_bytes_def [of origin] count_def
    by (simp only: append.simps list.case swap16_be Let_def)
  then show ?thesis by (simp add: f)
qed

lemma read_image_file_places_words:
  assumes "origin \<noteq> 0" and "unat origin + length ws \<le> 65536"
  shows "(\<forall>i<length ws.
      read_image_file part (image_bytes origin ws) m (origin + of_nat i) = ws ! i) \<and>
    (\<forall>a. (\<forall>i<length ws. a \<noteq> origin + of_nat i) \<longrightarrow>
       read_image_file part (image_bytes origin ws) m a = m a)"
proof -
  let ?raw = "map (\<lambda>w. native16 (ucast (drop_bit 8 w)) (ucast w)) ws"
  from assms(2) have len: "length ws \<le> 65536" by simp
  have "swap_loop (length ws) origin (store_items origin ?raw m) (origin + of_nat i) = ws ! i"
    if "i < length ws" for i
  proof -
    have "swap_loop (length ws) origin (store_items origin ?raw m) (origin + of_nat i) =
        swap16 (store_items origin ?raw m (origin + of_nat i))"
      using len that by (rule swap_loop_nth)
    also have "store_items origin ?raw m (origin + of_nat i) = ?raw ! i"
      using len that by (intro store_items_nth) simp_all
    finally show ?thesis using that by (simp add: swap16_be)
  qed
  moreover have "swap_loop (length ws) origin (store_items origin ?raw m) a = m a"
    if "\<forall>i<length ws. a \<noteq> origin + of_nat i" for a
    using that by (simp add: swap_loop_outside store_items_outside)
  ultimately show ?thesis by (simp add: read_image_file_words [OF assms])
qed

lemma round_trip_3000:
  assumes "length ws \<le> 53248"
  shows "(\<forall>i<length ws.
      read_image_file part (image_bytes 0x3000 ws) memory0 (0x3000 + of_nat i) = ws ! i) \<and>
    (\<forall>a. (\<forall>i<length ws. a \<noteq> 0x3000 + of_nat i) \<longrightarrow>
       read_image_file part (image_bytes 0x3000 ws) memory0 a = 0)"
proof -
  have "(0x3000 :: u16) \<noteq> 0" by simp
  moreover from assms have "unat (0x3000 :: u16) + length ws \<le> 65536" by simp
  ultimately show ?thesis
    using read_image_file_places_words [of "0x3000" ws part memory0]
    by (simp add: memory0_def)
qed

text \<open>
  Claim C7 says that the words after the origin go to consecutive cells from the origin.
  For an origin of 0 the program loads nothing: \<open>max_read\<close> is 65536 converted to
  \<open>uint16_t\<close>, which is 0. So the image with origin 0 and the word 0x1234 leaves the
  cell 0 at 0.
\<close>
theorem origin_zero_loads_nothing:
  "read_image_file part (0 # 0 # rest) m = m \<and>
   read_image_file part low_image memory0 = memory0 \<and>
   read_image_file part low_image memory0 0 = 0 \<and>
   read_image_file part low_image memory0 0 \<noteq> 0x1234"
proof -
  have z: "swap16 (native16 0 0) = 0" by (simp add: native16_def swap16_values)
  have "read_image_file part (0 # 0 # bs) m' = m'" for bs m'
    by (simp add: read_image_file_def z MEMORY_MAX_def fread16_zero)
  then show ?thesis by (simp add: low_image_def memory0_def)
qed

section \<open>The command line\<close>

lemma load_short:
  "read_image_file part [] m = m" "read_image_file part [b] m = m"
  by (simp_all add: read_image_file_def)

text \<open>
  Claim C8 says that the program exits with a diagnostic if any image cannot be read. It
  fails for a file that opens and holds no image: from an empty file, and from a file of
  one byte, \<open>fread\<close> reads no item, not even the origin, and yet \<open>read_image\<close>
  returns 1 and the loop is entered with nothing printed.
\<close>
theorem unread_image_counterexample:
  "short_files ''empty.obj'' = Some [] \<and>
   fst (fread16 1 []) = [] \<and>
   main_setup keep_high short_files [''empty.obj''] = Enter (start_state memory0) \<and>
   printed (start_state memory0) = [] \<and>
   short_files ''one.obj'' = Some [0x30] \<and>
   fst (fread16 1 [0x30]) = [] \<and>
   main_setup keep_high short_files [''one.obj''] = Enter (start_state memory0)"
  by (simp add: short_files_def main_setup_def read_image_def load_short start_state_def)

text \<open>
  Claim C8 as the program has it. For every list of one or more image paths: if some image
  cannot be opened, the program prints \<open>failed to load image\<close> with the path of one
  that cannot and exits with status 1 without entering the loop; otherwise, whatever the
  files hold, the loop is entered with the program counter at 0x3000, \<open>running\<close> at 1
  and nothing printed.
\<close>
theorem main_setup_outcome:
  assumes "args \<noteq> []"
  shows "((\<exists>p\<in>set args. fs p = None) \<longrightarrow>
      (\<exists>p\<in>set args. fs p = None \<and>
         main_setup part fs args = Exit 1 [''failed to load image: '' @ p @ newline] \<and>
         main_prog part fs kbd args =
           Some (Exit 1 [''failed to load image: '' @ p @ newline]))) \<and>
    ((\<forall>p\<in>set args. fs p \<noteq> None) \<longrightarrow>
      (\<exists>s. main_setup part fs args = Enter s \<and> reg s R_PC = 0x3000 \<and> running s = 1 \<and>
         printed s = []))"
proof -
  from assms have l: "\<not> int (length args) + 1 < 2" by (cases args) simp_all
  have a: "\<exists>p\<in>set args. fs p = None \<and>
         main_setup part fs args = Exit 1 [''failed to load image: '' @ p @ newline] \<and>
         main_prog part fs kbd args =
           Some (Exit 1 [''failed to load image: '' @ p @ newline])"
    if "\<exists>p\<in>set args. fs p = None"
  proof -
    from load_images_failed [OF that] obtain p where
      p: "p \<in> set args" "fs p = None" "load_images part fs args memory0 = Failed p"
      by blast
    with l have "main_setup part fs args = Exit 1 [''failed to load image: '' @ p @ newline]"
      by (simp add: main_setup_def)
    with p show ?thesis by (auto simp add: main_prog_def)
  qed
  have b: "\<exists>s. main_setup part fs args = Enter s \<and> reg s R_PC = 0x3000 \<and> running s = 1 \<and>
         printed s = []"
    if "\<forall>p\<in>set args. fs p \<noteq> None"
  proof -
    from load_images_loaded [OF that] obtain m where
      "load_images part fs args memory0 = Loaded m" by blast
    with l have "main_setup part fs args = Enter (start_state m)"
      by (simp add: main_setup_def)
    then show ?thesis by (simp add: start_state_simps PC_START_def)
  qed
  from a b show ?thesis by blast
qed

theorem main_setup_outcome_witness:
  "[''halt.obj'', ''gone.obj''] \<noteq> [] \<and> demo_files ''gone.obj'' = None \<and>
   main_setup keep_high demo_files [''halt.obj'', ''gone.obj''] =
     Exit 1 [''failed to load image: gone.obj'' @ newline] \<and>
   main_prog keep_high demo_files key_a [''halt.obj'', ''gone.obj''] =
     Some (Exit 1 [''failed to load image: gone.obj'' @ newline]) \<and>
   [''halt.obj''] \<noteq> [] \<and> demo_files ''halt.obj'' \<noteq> None \<and>
   main_setup keep_high demo_files [''halt.obj''] = Enter halt_state \<and>
   reg halt_state R_PC = 0x3000 \<and>
   short_files ''empty.obj'' \<noteq> None \<and>
   main_setup keep_high short_files [''empty.obj''] = Enter (start_state memory0) \<and>
   reg (start_state memory0) R_PC = 0x3000"
proof -
  have e: "short_files ''empty.obj'' \<noteq> None"
    "main_setup keep_high short_files [''empty.obj''] = Enter (start_state memory0)"
    by (simp_all add: short_files_def main_setup_def read_image_def load_short)
  have ne: "[''empty.obj''] \<noteq> []" by simp
  from main_setup_outcome [OF ne, of short_files keep_high key_a] e
  have pe: "reg (start_state memory0) R_PC = 0x3000" by simp
  have g: "demo_files ''gone.obj'' = None" "demo_files ''halt.obj'' \<noteq> None"
    by (simp_all add: demo_files_def)
  have n: "[''halt.obj'', ''gone.obj''] \<noteq> []" "[''halt.obj''] \<noteq> []" by simp_all
  from main_setup_outcome [OF n(1), of demo_files keep_high key_a] g
  have "main_setup keep_high demo_files [''halt.obj'', ''gone.obj''] =
     Exit 1 [''failed to load image: gone.obj'' @ newline] \<and>
   main_prog keep_high demo_files key_a [''halt.obj'', ''gone.obj''] =
     Some (Exit 1 [''failed to load image: gone.obj'' @ newline])"
    by auto
  moreover from main_setup_outcome [OF n(2), of demo_files keep_high key_a] g
  have "reg halt_state R_PC = 0x3000" by (simp add: setup_halt)
  ultimately show ?thesis using g n e pe by (simp add: setup_halt)
qed

section \<open>The loop never ends\<close>

text \<open>
  Claim C9. For every loaded program image and every input stream, the execution loop of
  \<open>main\<close> never terminates: \<open>running\<close> is 1 when the loop is entered, no pass through
  the body changes it, so \<open>exec_loop\<close> and with it \<open>main\<close> return nothing, and after any
  number \<open>n\<close> of passes the loop is still running, with the program counter at
  \<open>0x3000 + n\<close>.
\<close>
theorem exec_loop_never_ends:
  assumes "main_setup part fs args = Enter s"
  shows "running s = 1 \<and> (\<forall>t. running (loop_body kbd t) = running t) \<and>
    exec_loop kbd s = None \<and> main_prog part fs kbd args = None \<and>
    (\<forall>n. running (iterations n kbd s) = 1 \<and>
         reg (iterations n kbd s) R_PC = PC_START + of_nat n)"
proof -
  from assms obtain m where s: "s = start_state m" by (auto dest: main_setup_Enter)
  then have r: "running s = 1" and pc: "reg s R_PC = PC_START"
    by (simp_all add: start_state_simps)
  from r have n: "exec_loop kbd s = None" by (simp add: exec_loop_None)
  with assms have "main_prog part fs kbd args = None" by (simp add: main_prog_def)
  with r pc n show ?thesis
    by (simp add: loop_body_running iterations_running iterations_pc)
qed

theorem exec_loop_never_ends_witness:
  "main_setup keep_high demo_files [''halt.obj''] = Enter halt_state \<and>
   running halt_state = 1 \<and> exec_loop key_a halt_state = None \<and>
   main_prog keep_high demo_files key_a [''halt.obj''] = None \<and>
   running (iterations 5 key_a halt_state) = 1 \<and>
   reg (iterations 5 key_a halt_state) R_PC = 0x3005"
  using exec_loop_never_ends [OF setup_halt, where part = keep_high and kbd = key_a]
    setup_halt [of keep_high]
  by (simp add: PC_START_def)

section \<open>The frame of one pass through the loop\<close>

text \<open>
  Claim C10. One pass through the body of the execution loop changes at most the program
  counter, which goes up by exactly 1 modulo \<open>2 ^ 16\<close>, and the memory cells 0xFE00 and
  0xFE02 (by the keyboard poll in \<open>mem_read\<close>, and only when the program counter was
  0xFE00). The registers R0 to R7, the condition flags and every other memory cell stay
  as they were; so do \<open>running\<close> and the output.
\<close>
theorem loop_body_frame:
  "reg (loop_body kbd s) R_PC = reg s R_PC + 1 \<and>
   unat (reg (loop_body kbd s) R_PC) = (unat (reg s R_PC) + 1) mod 2 ^ 16 \<and>
   (\<forall>r. r \<noteq> R_PC \<longrightarrow> reg (loop_body kbd s) r = reg s r) \<and>
   (\<forall>a. a \<noteq> MR_KBSR \<and> a \<noteq> MR_KBDR \<longrightarrow> memory (loop_body kbd s) a = memory s a) \<and>
   (reg s R_PC \<noteq> MR_KBSR \<longrightarrow> memory (loop_body kbd s) = memory s) \<and>
   running (loop_body kbd s) = running s \<and>
   printed (loop_body kbd s) = printed s"
proof -
  have "unat (reg s R_PC + 1) = (unat (reg s R_PC) + 1) mod 2 ^ 16"
    by (simp add: unat_word_ariths)
  moreover have "reg s R_PC \<noteq> MR_KBSR \<Longrightarrow> memory (loop_body kbd s) = memory s"
    by (simp add: loop_body_plain)
  ultimately show ?thesis
    by (simp add: loop_body_reg loop_body_memory_other loop_body_running loop_body_printed)
qed

theorem loop_body_frame_witness:
  "reg (loop_body key_a kbsr_state) R_PC = 0xFE01 \<and>
   reg (loop_body key_a kbsr_state) R_R3 = reg kbsr_state R_R3 \<and>
   reg (loop_body key_a kbsr_state) R_COND = reg kbsr_state R_COND \<and>
   memory (loop_body key_a kbsr_state) 0x3000 = memory kbsr_state 0x3000 \<and>
   memory (loop_body no_keys halt_state) = memory halt_state"
proof -
  have d: "(0x3000 :: u16) \<noteq> MR_KBSR" "(0x3000 :: u16) \<noteq> MR_KBDR"
    by (simp_all add: MR_KBSR_def MR_KBDR_def)
  have p: "reg kbsr_state R_PC = 0xFE00" "reg halt_state R_PC = 0x3000"
    by (simp_all add: kbsr_state_def halt_state_def state_defs)
  show ?thesis
    using loop_body_frame [of key_a kbsr_state] loop_body_frame [of no_keys halt_state] d p
    by (simp add: MR_KBSR_def)
qed

end
